theory Spec2Isabelle
  imports Main "HOL-Library.Word"
begin

section \<open>Values, errors and clock readings\<close>

text \<open>
  A Go string is a sequence of bytes, and an Isabelle \<open>char\<close> is one byte, so
  a Go string is a \<open>string\<close>. A byte slice is either nil or holds a sequence
  of bytes, which may be empty; the two are different values. \<open>[]byte(str)\<close>
  is never nil, and \<open>string(bytes)\<close> is the empty string for nil.
\<close>

datatype bytes = nil | Bytes string

fun string_of_bytes :: "bytes \<Rightarrow> string" where
  "string_of_bytes nil = []"
| "string_of_bytes (Bytes b) = b"

text \<open>
  An argument of type \<open>any\<close> carries its dynamic type. The cache only looks
  for \<open>[]byte\<close> and \<open>string\<close>; every other dynamic type is \<open>AOther\<close> with
  an arbitrary payload.
\<close>

datatype 'a any = ABytes bytes | AString string | AOther 'a

text \<open>
  \<open>ErrNotInit\<close> and \<open>ErrNotFound\<close> are the two error values of package
  \<open>cache\<close>. \<open>ErrRecordNotFound\<close> is what the query layer reports when
  \<open>First\<close> matches no row, \<open>StoreError\<close> any other failure of the store,
  \<open>ErrSyntax\<close> and \<open>ErrRange\<close> the two failures of \<open>strconv.ParseInt\<close>.
\<close>

datatype error =
    ErrNotInit
  | ErrNotFound
  | ErrRecordNotFound
  | StoreError string
  | ErrSyntax
  | ErrRange

text \<open>
  \<open>time.Time\<close> and \<open>time.Duration\<close> count nanoseconds. Every call of
  \<open>time.Now()\<close> in the source is an explicit clock reading passed to the
  model. A duration spans less than 293 years, so \<open>time.Now().Add(expire)\<close>
  is the exact sum.
\<close>

type_synonym time = int
type_synonym duration = int
type_synonym int64 = "64 word"
type_synonym uint64 = "64 word"

section \<open>Tables\<close>

text \<open>
  Table \<open>cache_kvs\<close> has a unique index on \<open>cache_key\<close>, so it is a map from
  the key to the rest of the row. Table \<open>cache_maps\<close> is kept as the list of
  its rows in the order in which the store returns them. The bookkeeping
  columns (\<open>id\<close>, \<open>created_at\<close>, \<open>updated_at\<close>) are read by no operation and
  are left out.
\<close>

record CacheKV =
  CacheValue :: string
  ExpireTime :: time

record CacheMap =
  CacheKey :: string
  CacheField :: string
  MapValue :: string

record Message =
  ID :: int
  Channel :: string
  MessageText :: string

record db =
  cache_kvs :: "string \<rightharpoonup> CacheKV"
  cache_maps :: "CacheMap list"

text \<open>What a statement reports back: the rows it affected and its error.\<close>

record result =
  RowsAffected :: int
  Error :: "error option"

section \<open>The statements the client sends\<close>

text \<open>
  The relational store is not part of the repository. Each statement is
  modelled by its meaning on the tables; a statement that is well formed and
  meets the constraints of the table reports no error.

  The column \<open>cache_value\<close> is declared \<open>not null\<close>, and the driver sends a
  nil byte slice as \<open>NULL\<close>. A plain \<open>INSERT\<close> of \<open>NULL\<close> into such a column is
  refused: the statement reports an error and writes nothing. Under
  \<open>IGNORE\<close> the store turns that error into a warning and writes the
  column's implicit default, the empty string.
\<close>

text \<open>
  \<open>INSERT ... ON DUPLICATE KEY UPDATE cache_value, expire_time, updated_at\<close>.
  The store counts 1 for an inserted row and 2 for a rewritten one; \<open>Set\<close>
  reads the error only.
\<close>

definition exec_upsert_kv :: "string \<Rightarrow> bytes \<Rightarrow> time \<Rightarrow> db \<Rightarrow> result \<times> db" where
  "exec_upsert_kv key val expireTime d =
     (case val of
        nil \<Rightarrow>
          (\<lparr>RowsAffected = 0, Error = Some (StoreError ''cache_value cannot be null'')\<rparr>, d)
      | Bytes b \<Rightarrow>
          (let row = \<lparr>CacheValue = b, ExpireTime = expireTime\<rparr>;
               n = (case cache_kvs d key of None \<Rightarrow> 1 | Some old \<Rightarrow> 2)
           in (\<lparr>RowsAffected = n, Error = None\<rparr>,
               d\<lparr>cache_kvs := (cache_kvs d)(key \<mapsto> row)\<rparr>)))"

text \<open>
  \<open>INSERT IGNORE\<close>: a row with the same key, live or not, blocks the insert.
  A \<open>NULL\<close> value is written as the empty string.
\<close>

definition exec_insert_ignore_kv :: "string \<Rightarrow> bytes \<Rightarrow> time \<Rightarrow> db \<Rightarrow> result \<times> db" where
  "exec_insert_ignore_kv key val expireTime d =
     (case cache_kvs d key of
        None \<Rightarrow>
          (\<lparr>RowsAffected = 1, Error = None\<rparr>,
           d\<lparr>cache_kvs := (cache_kvs d)
                (key \<mapsto> \<lparr>CacheValue = string_of_bytes val, ExpireTime = expireTime\<rparr>)\<rparr>)
      | Some old \<Rightarrow> (\<lparr>RowsAffected = 0, Error = None\<rparr>, d))"

text \<open>
  \<open>UPDATE cache_kvs SET expire_time = ? WHERE cache_key = ?\<close>. There is no
  condition on the old expiry. The query layer sets \<open>updated_at\<close> in the same
  statement, so the row it matches is a row it affects.
\<close>

definition exec_update_expire :: "string \<Rightarrow> time \<Rightarrow> db \<Rightarrow> result \<times> db" where
  "exec_update_expire key expireTime d =
     (case cache_kvs d key of
        None \<Rightarrow> (\<lparr>RowsAffected = 0, Error = None\<rparr>, d)
      | Some old \<Rightarrow>
          (\<lparr>RowsAffected = 1, Error = None\<rparr>,
           d\<lparr>cache_kvs := (cache_kvs d)(key \<mapsto> old\<lparr>ExpireTime := expireTime\<rparr>)\<rparr>))"

text \<open>\<open>WHERE cache_key = ? AND expire_time > ?\<close>, then \<open>First\<close>.\<close>

definition first_live_kv :: "string \<Rightarrow> time \<Rightarrow> db \<Rightarrow> error + CacheKV" where
  "first_live_kv key now d =
     (case cache_kvs d key of
        None \<Rightarrow> Inl ErrRecordNotFound
      | Some row \<Rightarrow> if ExpireTime row > now then Inr row else Inl ErrRecordNotFound)"

text \<open>\<open>DELETE FROM cache_kvs WHERE cache_key = ?\<close>\<close>

definition exec_delete_kv :: "string \<Rightarrow> db \<Rightarrow> result \<times> db" where
  "exec_delete_kv key d =
     (case cache_kvs d key of
        None \<Rightarrow> (\<lparr>RowsAffected = 0, Error = None\<rparr>, d)
      | Some old \<Rightarrow>
          (\<lparr>RowsAffected = 1, Error = None\<rparr>, d\<lparr>cache_kvs := (cache_kvs d)(key := None)\<rparr>))"

text \<open>\<open>DELETE FROM cache_kvs WHERE expire_time <= ?\<close>, the reaper's statement.\<close>

definition exec_delete_expired :: "time \<Rightarrow> db \<Rightarrow> db" where
  "exec_delete_expired now d =
     d\<lparr>cache_kvs := (\<lambda>k. case cache_kvs d k of
                           None \<Rightarrow> None
                         | Some row \<Rightarrow> if ExpireTime row \<le> now then None else Some row)\<rparr>"

section \<open>The client: scalar entries\<close>

fun toBytes :: "'a any \<Rightarrow> bytes" where
  "toBytes (ABytes bytes) = bytes"
| "toBytes (AString str) = Bytes str"
| "toBytes (AOther x) = nil"

definition Set :: "string \<Rightarrow> 'a any \<Rightarrow> duration \<Rightarrow> time \<Rightarrow> db \<Rightarrow> error option \<times> db" where
  "Set key v expire now d =
     (let val = toBytes v;
          expireTime = now + expire;
          (res, d') = exec_upsert_kv key val expireTime d
      in (Error res, d'))"

definition GetBytes :: "string \<Rightarrow> time \<Rightarrow> db \<Rightarrow> error + string" where
  "GetBytes key now d =
     (case first_live_kv key now d of
        Inl e \<Rightarrow> if e = ErrRecordNotFound then Inl ErrNotFound else Inl e
      | Inr cacheKV \<Rightarrow> Inr (CacheValue cacheKV))"

definition GetString :: "string \<Rightarrow> time \<Rightarrow> db \<Rightarrow> error + string" where
  "GetString key now d =
     (case GetBytes key now d of
        Inl e \<Rightarrow> Inl e
      | Inr bytes \<Rightarrow> Inr bytes)"

definition Delete :: "string \<Rightarrow> db \<Rightarrow> (int \<times> error option) \<times> db" where
  "Delete key d =
     (let (res, d') = exec_delete_kv key d
      in ((RowsAffected res, Error res), d'))"

definition SetNX :: "string \<Rightarrow> 'a any \<Rightarrow> duration \<Rightarrow> time \<Rightarrow> db \<Rightarrow> (error + bool) \<times> db" where
  "SetNX key v expire now d =
     (let val = toBytes v;
          expireTime = now + expire;
          (res, d') = exec_insert_ignore_kv key val expireTime d
      in case Error res of
           Some e \<Rightarrow> (Inl e, d')
         | None \<Rightarrow> (Inr (RowsAffected res = 1), d'))"

definition Expire :: "string \<Rightarrow> duration \<Rightarrow> time \<Rightarrow> db \<Rightarrow> (bool \<times> error option) \<times> db" where
  "Expire key expire now d =
     (let expireTime = now + expire;
          (res, d') = exec_update_expire key expireTime d
      in ((RowsAffected res > 0, Error res), d'))"

text \<open>
  \<open>Transaction\<close> runs the closure on the tables and keeps its writes only
  when the closure returns no error. The second component of the closure's
  result holds the variables it captured.
\<close>

definition Transaction :: "(db \<Rightarrow> (error option \<times> 'c) \<times> db) \<Rightarrow> db \<Rightarrow> (error option \<times> 'c) \<times> db" where
  "Transaction fn d =
     (case fn d of
        ((None, c), d') \<Rightarrow> ((None, c), d')
      | ((Some e, c), d') \<Rightarrow> ((Some e, c), d))"

text \<open>The tables before anything is stored.\<close>

definition empty_db :: db where
  "empty_db = \<lparr>cache_kvs = Map.empty, cache_maps = []\<rparr>"

section \<open>The client: hash maps\<close>

text \<open>
  \<open>INSERT ... ON DUPLICATE KEY UPDATE cache_value\<close> on \<open>cache_maps\<close>, whose
  unique index is on the pair of key and field: the row with that pair is
  rewritten where it stands, and a new pair is added as the last row.
\<close>

fun upsert_map :: "string \<Rightarrow> string \<Rightarrow> string \<Rightarrow> CacheMap list \<Rightarrow> CacheMap list" where
  "upsert_map key field v [] = [\<lparr>CacheKey = key, CacheField = field, MapValue = v\<rparr>]"
| "upsert_map key field v (r # rs) =
     (if CacheKey r = key \<and> CacheField r = field
      then r\<lparr>MapValue := v\<rparr> # rs
      else r # upsert_map key field v rs)"

definition exec_upsert_map :: "string \<Rightarrow> string \<Rightarrow> string \<Rightarrow> db \<Rightarrow> result \<times> db" where
  "exec_upsert_map key field v d =
     (\<lparr>RowsAffected =
         (if list_ex (\<lambda>r. CacheKey r = key \<and> CacheField r = field) (cache_maps d) then 2 else 1),
        Error = None\<rparr>,
      d\<lparr>cache_maps := upsert_map key field v (cache_maps d)\<rparr>)"

definition SetMapField :: "string \<Rightarrow> string \<Rightarrow> string \<Rightarrow> db \<Rightarrow> error option \<times> db" where
  "SetMapField key field v d =
     (let (res, d') = exec_upsert_map key field v d
      in (Error res, d'))"

text \<open>\<open>strings.ReplaceAll(pattern, "*", "%")\<close>\<close>

definition convertRegexToSQL :: "string \<Rightarrow> string" where
  "convertRegexToSQL pattern = map (\<lambda>c. if c = CHR ''*'' then CHR ''%'' else c) pattern"

text \<open>
  \<open>Offset\<close> and \<open>Limit\<close> of the query builder: an offset that is not positive
  adds no \<open>OFFSET\<close>, a negative limit adds no \<open>LIMIT\<close>.
\<close>

definition Offset :: "int \<Rightarrow> 'r list \<Rightarrow> 'r list" where
  "Offset n rows = (if 0 < n then drop (nat n) rows else rows)"

definition Limit :: "int \<Rightarrow> 'r list \<Rightarrow> 'r list" where
  "Limit n rows = (if 0 \<le> n then take (nat n) rows else rows)"

text \<open>
  The rows of one map, \<open>WHERE cache_key = ?\<close>, and the slice of strings the
  scan builds from the rows of a page.
\<close>

definition map_rows :: "string \<Rightarrow> db \<Rightarrow> CacheMap list" where
  "map_rows key d = filter (\<lambda>r. CacheKey r = key) (cache_maps d)"

definition flatten :: "CacheMap list \<Rightarrow> string list" where
  "flatten rows = concat (map (\<lambda>cacheMap. [CacheField cacheMap, MapValue cacheMap]) rows)"

text \<open>
  \<open>ScanMapStream\<close>. The store's \<open>LIKE\<close> operator is the parameter \<open>like\<close>
  (field first, pattern second). \<open>int(cursor)\<close> and \<open>int(count)\<close> read the
  64 bits as a signed number.
\<close>

definition ScanMapStream ::
  "(string \<Rightarrow> string \<Rightarrow> bool) \<Rightarrow> string \<Rightarrow> uint64 \<Rightarrow> string \<Rightarrow> int64 \<Rightarrow> db
     \<Rightarrow> string list \<times> uint64 \<times> error option" where
  "ScanMapStream like key cursor match count d =
     (let query = map_rows key d;
          query = (if match \<noteq> [] then filter (\<lambda>r. like (CacheField r) (convertRegexToSQL match)) query
                   else query);
          cacheMaps = Limit (sint count) (Offset (sint cursor) query);
          keys = flatten cacheMaps;
          nextCursor = cursor + of_nat (length cacheMaps);
          nextCursor = (if int (length cacheMaps) < sint count then 0 else nextCursor)
      in (keys, nextCursor, None))"

text \<open>
  The caller's side of a scan, as the cursor convention prescribes it: start
  at cursor 0, keep the rows of every page, feed the returned cursor into the
  next call and stop when it is 0. The first argument bounds the number of
  calls; \<open>None\<close> means the bound was reached before a cursor 0 was returned.
\<close>

fun scan_all ::
  "nat \<Rightarrow> (string \<Rightarrow> string \<Rightarrow> bool) \<Rightarrow> string \<Rightarrow> uint64 \<Rightarrow> string \<Rightarrow> int64 \<Rightarrow> db
     \<Rightarrow> string list option" where
  "scan_all 0 like key cursor match count d = None"
| "scan_all (Suc n) like key cursor match count d =
     (case ScanMapStream like key cursor match count d of
        (keys, nextCursor, e) \<Rightarrow>
          if nextCursor = 0 then Some keys
          else map_option (\<lambda>more. keys @ more) (scan_all n like key nextCursor match count d))"

section \<open>The client: subscriptions\<close>

text \<open>
  The polling goroutine of \<open>Subscribe\<close>. Its state is the in-memory
  \<open>subscription.LastMessageId\<close>, the \<open>last_message_id\<close> of its row in
  \<open>cache_message_subscribes\<close> (\<open>None\<close> once the row is deleted), and what it
  has sent on the channel: the channel carries \<open>msg.Message\<close> only, the
  model keeps the whole message to speak about its id.
\<close>

record subscriber =
  LastMessageId :: int
  last_message_id :: "int option"
  ch :: "Message list"
  closed :: bool

text \<open>On attach: the row is created with \<open>LastMessageId = -1\<close>.\<close>

definition attach :: subscriber where
  "attach = \<lparr>LastMessageId = - 1, last_message_id = Some (- 1), ch = [], closed = False\<rparr>"

text \<open>
  \<open>WHERE channel = ? AND id > ?\<close>, \<open>ORDER BY id ASC\<close>, \<open>LIMIT 10\<close> on the
  content of \<open>cache_messages\<close> at the moment of the poll.
\<close>

definition poll_messages :: "string \<Rightarrow> int \<Rightarrow> Message list \<Rightarrow> Message list" where
  "poll_messages channel lastId table =
     take 10 (sort_key ID (filter (\<lambda>m. Channel m = channel \<and> ID m > lastId) table))"

text \<open>The deferred calls: delete the subscription row, close the channel.\<close>

definition finish :: "subscriber \<Rightarrow> subscriber" where
  "finish s = s\<lparr>last_message_id := None, closed := True\<rparr>"

text \<open>
  The inner loop over the fetched messages. Its first argument says after how
  many hand-offs \<open>stop\<close> is closed (\<open>None\<close>: not during this batch). The
  result says whether the goroutine returned.
\<close>

fun hand_off :: "nat option \<Rightarrow> Message list \<Rightarrow> subscriber \<Rightarrow> subscriber \<times> bool" where
  "hand_off stop [] s = (s, False)"
| "hand_off (Some 0) (msg # messages) s = (s, True)"
| "hand_off (Some (Suc n)) (msg # messages) s =
     hand_off (Some n) messages
       (s\<lparr>ch := ch s @ [msg], LastMessageId := ID msg, last_message_id := Some (ID msg)\<rparr>)"
| "hand_off None (msg # messages) s =
     hand_off None messages
       (s\<lparr>ch := ch s @ [msg], LastMessageId := ID msg, last_message_id := Some (ID msg)\<rparr>)"

text \<open>
  What the outer \<open>select\<close> sees: \<open>stop\<close> closed, or a tick. A tick carries
  the content of \<open>cache_messages\<close> at that moment (\<open>None\<close>: the query failed)
  and the moment \<open>stop\<close> is closed within the batch.
\<close>

datatype event = Stop | Tick "Message list option" "nat option"

fun poll_loop :: "string \<Rightarrow> event list \<Rightarrow> subscriber \<Rightarrow> subscriber" where
  "poll_loop channel [] s = s"
| "poll_loop channel (Stop # evs) s = finish s"
| "poll_loop channel (Tick None stop # evs) s = poll_loop channel evs s"
| "poll_loop channel (Tick (Some table) stop # evs) s =
     (case hand_off stop (poll_messages channel (LastMessageId s) table) s of
        (s', True) \<Rightarrow> finish s'
      | (s', False) \<Rightarrow> poll_loop channel evs s')"

definition Subscribe :: "string \<Rightarrow> event list \<Rightarrow> subscriber" where
  "Subscribe channel evs = poll_loop channel evs attach"

section \<open>Integers as decimal strings\<close>

text \<open>
  \<open>strconv.ParseInt(s, 10, 64)\<close> and \<open>strconv.FormatInt(i, 10)\<close>. The loop
  of \<open>ParseUint\<close> reads one byte at a time and stops at the first byte that is
  not a digit, or when the number no longer fits 64 bits.
\<close>

definition is_digit :: "char \<Rightarrow> bool" where
  "is_digit c = (48 \<le> (of_char c :: nat) \<and> (of_char c :: nat) \<le> 57)"

fun ParseUint_loop :: "nat \<Rightarrow> string \<Rightarrow> error + nat" where
  "ParseUint_loop n [] = Inr n"
| "ParseUint_loop n (c # cs) =
     (if \<not> is_digit c then Inl ErrSyntax
      else if 2 ^ 64 \<le> n * 10 + (of_char c - 48) then Inl ErrRange
      else ParseUint_loop (n * 10 + (of_char c - 48)) cs)"

definition ParseUint :: "string \<Rightarrow> error + nat" where
  "ParseUint s = (if s = [] then Inl ErrSyntax else ParseUint_loop 0 s)"

definition ParseInt :: "string \<Rightarrow> error + int64" where
  "ParseInt s =
     (if s = [] then Inl ErrSyntax
      else
        let neg = (hd s = CHR ''-'');
            s' = (if hd s = CHR ''+'' \<or> hd s = CHR ''-'' then tl s else s)
        in case ParseUint s' of
             Inl e \<Rightarrow> Inl e
           | Inr un \<Rightarrow>
               if \<not> neg \<and> 2 ^ 63 \<le> un then Inl ErrRange
               else if neg \<and> 2 ^ 63 < un then Inl ErrRange
               else Inr (if neg then - of_nat un else of_nat un))"

definition digit_char :: "nat \<Rightarrow> char" where
  "digit_char n = ''0123456789'' ! n"

fun format_nat :: "nat \<Rightarrow> string" where
  "format_nat n =
     (if n < 10 then [digit_char n]
      else format_nat (n div 10) @ [digit_char (n mod 10)])"

definition FormatInt :: "int64 \<Rightarrow> string" where
  "FormatInt i =
     (if sint i < 0 then CHR ''-'' # format_nat (nat (- sint i))
      else format_nat (nat (sint i)))"

section \<open>The command adapter\<close>

text \<open>
  The result wrappers, with the zero value in every field a constructor
  call of the source leaves out, and their \<open>Err\<close> and \<open>Result\<close> methods.
\<close>

datatype StatusCmdAdapter = StatusCmdAdapter (status_err: "error option")
datatype StringCmdAdapter = StringCmdAdapter (string_val: string) (string_err: "error option")
datatype IntCmdAdapter = IntCmdAdapter (int_val: int64) (int_err: "error option")
datatype BoolCmdAdapter = BoolCmdAdapter (bool_val: bool) (bool_err: "error option")
datatype StringSliceCmdAdapter =
  StringSliceCmdAdapter (slice_val: "string list") (slice_err: "error option")
datatype PipelinerAdapter = PipelinerAdapter

type_synonym Cmder = "error option"

definition Status_Result :: "StatusCmdAdapter \<Rightarrow> string \<times> error option" where
  "Status_Result s = ([], status_err s)"

definition String_Result :: "StringCmdAdapter \<Rightarrow> string \<times> error option" where
  "String_Result s = (string_val s, string_err s)"

definition Int_Result :: "IntCmdAdapter \<Rightarrow> int64 \<times> error option" where
  "Int_Result i = (int_val i, int_err i)"

definition Bool_Result :: "BoolCmdAdapter \<Rightarrow> bool \<times> error option" where
  "Bool_Result b = (bool_val b, bool_err b)"

definition StringSlice_Result :: "StringSliceCmdAdapter \<Rightarrow> string list \<times> error option" where
  "StringSlice_Result s = (slice_val s, slice_err s)"

text \<open>
  \<open>IncrBy\<close>. The closure reads the clock twice, once in \<open>GetString\<close> and once
  in \<open>Set\<close>; it captures \<open>result\<close>, which starts as 0. The sum is a 64-bit
  sum.
\<close>

definition IncrBy_closure ::
  "string \<Rightarrow> int64 \<Rightarrow> time \<Rightarrow> time \<Rightarrow> db \<Rightarrow> (error option \<times> int64) \<times> db" where
  "IncrBy_closure key v now_get now_set d =
     (case GetString key now_get d of
        Inl e \<Rightarrow>
          if e \<noteq> ErrNotFound then ((Some e, 0), d)
          else
            let current = 0;
                result = current + v;
                (e', d') = Set key (AString (FormatInt result) :: unit any) 0 now_set d
            in ((e', result), d')
      | Inr currentVal \<Rightarrow>
          (case ParseInt currentVal of
             Inl e \<Rightarrow> ((Some e, 0), d)
           | Inr current \<Rightarrow>
               let result = current + v;
                   (e', d') = Set key (AString (FormatInt result) :: unit any) 0 now_set d
               in ((e', result), d')))"

definition IncrBy :: "string \<Rightarrow> int64 \<Rightarrow> time \<Rightarrow> time \<Rightarrow> db \<Rightarrow> IntCmdAdapter \<times> db" where
  "IncrBy key v now_get now_set d =
     (case Transaction (IncrBy_closure key v now_get now_set) d of
        ((Some e, result), d') \<Rightarrow> (IntCmdAdapter 0 (Some e), d')
      | ((None, result), d') \<Rightarrow> (IntCmdAdapter result None, d'))"

definition Incr :: "string \<Rightarrow> time \<Rightarrow> time \<Rightarrow> db \<Rightarrow> IntCmdAdapter \<times> db" where
  "Incr key now_get now_set d = IncrBy key 1 now_get now_set d"

text \<open>
  \<open>HSet\<close>: the loop \<open>for i := 0; i < len(values)-1; i += 2\<close>, entered only
  when \<open>len(values) >= 2\<close>. The result is the error of a failed
  \<open>SetMapField\<close>, if any, and the tables.
\<close>

function HSet_loop :: "string \<Rightarrow> 'a any list \<Rightarrow> nat \<Rightarrow> db \<Rightarrow> error option \<times> db" where
  "HSet_loop key values i d =
     (if int i < int (length values) - 1 then
        (case (values ! i, values ! (i + 1)) of
           (AString field, AString v) \<Rightarrow>
             (case SetMapField key field v d of
                (Some e, d') \<Rightarrow> (Some e, d')
              | (None, d') \<Rightarrow> HSet_loop key values (i + 2) d')
         | _ \<Rightarrow> HSet_loop key values (i + 2) d)
      else (None, d))"
  by pat_completeness auto
termination
  by (relation "measure (\<lambda>(key, values, i, d). length values - i)") auto

definition HSet :: "string \<Rightarrow> 'a any list \<Rightarrow> db \<Rightarrow> IntCmdAdapter \<times> db" where
  "HSet key values d =
     (if 2 \<le> length values then
        (case HSet_loop key values 0 d of
           (Some e, d') \<Rightarrow> (IntCmdAdapter 0 (Some e), d')
         | (None, d') \<Rightarrow> (IntCmdAdapter 1 None, d'))
      else (IntCmdAdapter 0 (Some ErrNotFound), d))"

text \<open>The list commands and the pipeline. None of them reaches the client.\<close>

definition LIndex :: "string \<Rightarrow> int64 \<Rightarrow> db \<Rightarrow> StringCmdAdapter \<times> db" where
  "LIndex key index d = (StringCmdAdapter [] (Some ErrNotFound), d)"

definition LPush :: "string \<Rightarrow> 'a any list \<Rightarrow> db \<Rightarrow> IntCmdAdapter \<times> db" where
  "LPush key values d = (IntCmdAdapter 0 (Some ErrNotFound), d)"

definition RPush :: "string \<Rightarrow> 'a any list \<Rightarrow> db \<Rightarrow> IntCmdAdapter \<times> db" where
  "RPush key values d = (IntCmdAdapter 0 (Some ErrNotFound), d)"

definition LSet :: "string \<Rightarrow> int64 \<Rightarrow> 'a any \<Rightarrow> db \<Rightarrow> StatusCmdAdapter \<times> db" where
  "LSet key index v d = (StatusCmdAdapter (Some ErrNotFound), d)"

definition LPop :: "string \<Rightarrow> db \<Rightarrow> StringCmdAdapter \<times> db" where
  "LPop key d = (StringCmdAdapter [] (Some ErrNotFound), d)"

definition LRange :: "string \<Rightarrow> int64 \<Rightarrow> int64 \<Rightarrow> db \<Rightarrow> StringSliceCmdAdapter \<times> db" where
  "LRange key start stop d = (StringSliceCmdAdapter [] (Some ErrNotFound), d)"

definition Pipeline :: PipelinerAdapter where
  "Pipeline = PipelinerAdapter"

definition Exec :: "PipelinerAdapter \<Rightarrow> db \<Rightarrow> (Cmder list \<times> error option) \<times> db" where
  "Exec p d = (([], Some ErrNotFound), d)"

section \<open>Reference definitions for the statements\<close>

text \<open>
  The pairs of a flat field/value sequence that \<open>HSet\<close> is to store: two
  elements at a time from the front, keeping a pair when both elements are
  strings; an element left alone at the end belongs to no pair.
\<close>

fun string_pairs :: "'a any list \<Rightarrow> (string \<times> string) list" where
  "string_pairs (AString field # AString v # rest) = (field, v) # string_pairs rest"
| "string_pairs (x # y # rest) = string_pairs rest"
| "string_pairs rest = []"

text \<open>One \<open>SetMapField\<close> per pair, in order.\<close>

definition store_pairs :: "string \<Rightarrow> (string \<times> string) list \<Rightarrow> db \<Rightarrow> db" where
  "store_pairs key ps d = fold (\<lambda>(field, v) d'. snd (SetMapField key field v d')) ps d"

text \<open>Tables in which the key \<open>k\<close> holds the counter value 5 and expires at 100.\<close>

definition counter_db :: db where
  "counter_db =
     \<lparr>cache_kvs = [''k'' \<mapsto> \<lparr>CacheValue = ''5'', ExpireTime = 100\<rparr>], cache_maps = []\<rparr>"

text \<open>
  What is said of a subscriber: the messages sent so far are in
  non-decreasing order of id, the in-memory \<open>LastMessageId\<close> is \<open>-1\<close> before
  the first hand-off and the id of the last message sent after it, and the
  stored \<open>last_message_id\<close>, while the row exists, equals it.
\<close>

definition delivered_in_order :: "subscriber \<Rightarrow> bool" where
  "delivered_in_order s =
     (sorted (map ID (ch s)) \<and>
      LastMessageId s = (if ch s = [] then - 1 else ID (last (ch s))) \<and>
      (last_message_id s = None \<or> last_message_id s = Some (LastMessageId s)))"

text \<open>Tables with a map \<open>k\<close> of three fields and a map \<open>j\<close> of one.\<close>

definition scan_db :: db where
  "scan_db =
     \<lparr>cache_kvs = Map.empty,
      cache_maps =
        [\<lparr>CacheKey = ''k'', CacheField = ''a'', MapValue = ''1''\<rparr>,
         \<lparr>CacheKey = ''j'', CacheField = ''a'', MapValue = ''9''\<rparr>,
         \<lparr>CacheKey = ''k'', CacheField = ''b'', MapValue = ''2''\<rparr>,
         \<lparr>CacheKey = ''k'', CacheField = ''c'', MapValue = ''3''\<rparr>]\<rparr>"

text \<open>
  Two states of \<open>cache_messages\<close> and a run of the polling loop: a poll of
  the first state, a failed poll, a poll of the second state during which
  \<open>stop\<close> is closed after two hand-offs.
\<close>

definition messages_1 :: "Message list" where
  "messages_1 =
     [\<lparr>ID = 2, Channel = ''other'', MessageText = ''x2''\<rparr>,
      \<lparr>ID = 1, Channel = ''c'', MessageText = ''m1''\<rparr>]"

definition messages_2 :: "Message list" where
  "messages_2 =
     [\<lparr>ID = 5, Channel = ''c'', MessageText = ''m5''\<rparr>,
      \<lparr>ID = 1, Channel = ''c'', MessageText = ''m1''\<rparr>,
      \<lparr>ID = 2, Channel = ''other'', MessageText = ''x2''\<rparr>,
      \<lparr>ID = 6, Channel = ''c'', MessageText = ''m6''\<rparr>,
      \<lparr>ID = 3, Channel = ''c'', MessageText = ''m3''\<rparr>]"

definition subscribe_events :: "event list" where
  "subscribe_events =
     [Tick (Some messages_1) None, Tick None None, Tick (Some messages_2) (Some 2), Stop]"

text \<open>Tables in which the key \<open>k\<close> holds a value that is not a number.\<close>

definition text_db :: db where
  "text_db =
     \<lparr>cache_kvs = [''k'' \<mapsto> \<lparr>CacheValue = ''abc'', ExpireTime = 100\<rparr>], cache_maps = []\<rparr>"

declare HSet_loop.simps [simp del]

declare format_nat.simps [simp del]

section \<open>Scalar entries and their expiry\<close>

lemmas kv_defs = GetString_def GetBytes_def first_live_kv_def Set_def exec_upsert_kv_def
  SetNX_def exec_insert_ignore_kv_def Expire_def exec_update_expire_def Let_def

lemma GetString_after_Set:
  "toBytes v = Bytes b \<Longrightarrow>
   GetString k t (snd (Set k v ttl t0 d)) = (if t < t0 + ttl then Inr b else Inl ErrNotFound)"
  by (simp add: kv_defs)

lemma Set_zero_ttl_never_live:
  "toBytes v = Bytes b \<Longrightarrow> t0 \<le> t \<Longrightarrow> GetString k t (snd (Set k v 0 t0 d)) = Inl ErrNotFound"
  by (simp add: GetString_after_Set)

text \<open>
  Claim C2 says that an entry stored by \<open>Set\<close> with \<open>ttl = 0\<close> never expires.
  The code stores \<open>expire_time = now + 0\<close>, and \<open>GetBytes\<close> selects rows with
  \<open>expire_time > now\<close>: the entry stored at clock reading 100 is not found at
  reading 100 nor at reading 101 (nor, by \<open>Set_zero_ttl_never_live\<close>, at any
  later reading). \<open>IncrBy\<close> keeps its counter with such a \<open>Set\<close>: two
  increments by 1 of a new counter, at readings 10 and 11, both return 1.
\<close>

theorem Set_zero_ttl_expired:
  "fst (Set ''k'' (AString ''v'' :: unit any) 0 100 empty_db) = None \<and>
   cache_kvs (snd (Set ''k'' (AString ''v'' :: unit any) 0 100 empty_db)) ''k'' =
     Some \<lparr>CacheValue = ''v'', ExpireTime = 100\<rparr> \<and>
   GetString ''k'' 100 (snd (Set ''k'' (AString ''v'' :: unit any) 0 100 empty_db)) = Inl ErrNotFound \<and>
   GetString ''k'' 101 (snd (Set ''k'' (AString ''v'' :: unit any) 0 100 empty_db)) = Inl ErrNotFound \<and>
   fst (IncrBy ''n'' 1 10 10 empty_db) = IntCmdAdapter 1 None \<and>
   fst (IncrBy ''n'' 1 11 11 (snd (IncrBy ''n'' 1 10 10 empty_db))) = IntCmdAdapter 1 None"
  by (simp add: IncrBy_def Transaction_def IncrBy_closure_def kv_defs empty_db_def)

text \<open>
  Claim C3. After \<open>Set k v ttl\<close> at clock reading \<open>t0\<close> with a string \<open>v\<close> and
  \<open>ttl > 0\<close>, \<open>Set\<close> has reported no error, a \<open>GetString k\<close> at a reading \<open>t\<close>
  before \<open>t0 + ttl\<close> returns \<open>v\<close>, and at a reading from \<open>t0 + ttl\<close> on, with
  the row still in the table, it fails with \<open>ErrNotFound\<close>.
\<close>

theorem Set_then_GetString:
  assumes "0 < ttl"
  shows "fst (Set k (AString v) ttl t0 d) = None \<and>
         (t < t0 + ttl \<longrightarrow> GetString k t (snd (Set k (AString v) ttl t0 d)) = Inr v) \<and>
         (t0 + ttl \<le> t \<longrightarrow>
            cache_kvs (snd (Set k (AString v) ttl t0 d)) k \<noteq> None \<and>
            GetString k t (snd (Set k (AString v) ttl t0 d)) = Inl ErrNotFound)"
  by (simp add: kv_defs)

theorem Set_then_GetString_witness:
  "fst (Set ''k'' (AString ''v'' :: unit any) 5 100 empty_db) = None \<and>
   GetString ''k'' 104 (snd (Set ''k'' (AString ''v'' :: unit any) 5 100 empty_db)) = Inr ''v'' \<and>
   GetString ''k'' 105 (snd (Set ''k'' (AString ''v'' :: unit any) 5 100 empty_db)) = Inl ErrNotFound"
proof -
  have ttl: "(0::int) < 5" by simp
  have before: "(104::int) < 100 + 5" by simp
  have after: "(100::int) + 5 \<le> 105" by simp
  note at = Set_then_GetString [OF ttl, of "''k''" "''v''" 100 empty_db]
  from at [of 104] before at [of 105] after show ?thesis by blast
qed

text \<open>
  Claim C4. On tables with no row for \<open>k\<close>, \<open>SetNX k v1 ttl\<close> returns true and
  a \<open>SetNX k v2 ttl2\<close> right after it returns false and leaves the tables as
  they are, so that a \<open>GetString k\<close> before \<open>t1 + ttl\<close> returns \<open>v1\<close> (as the
  string of its bytes). On any
  tables, \<open>SetNX\<close> returns true exactly when its statement affected one row,
  which is exactly when no row with the key existed, in which case the row
  is stored; when a row existed the tables, expiry included, are unchanged.
\<close>

theorem SetNX_twice:
  assumes "cache_kvs d k = None"
  shows "fst (SetNX k v1 ttl t1 d) = Inr True \<and>
         fst (SetNX k v2 ttl2 t2 (snd (SetNX k v1 ttl t1 d))) = Inr False \<and>
         snd (SetNX k v2 ttl2 t2 (snd (SetNX k v1 ttl t1 d))) = snd (SetNX k v1 ttl t1 d) \<and>
         (t < t1 + ttl \<longrightarrow>
            GetString k t (snd (SetNX k v2 ttl2 t2 (snd (SetNX k v1 ttl t1 d)))) =
              Inr (string_of_bytes (toBytes v1))) \<and>
         fst (SetNX k' v ttl' t' d') =
           Inr (RowsAffected (fst (exec_insert_ignore_kv k' (toBytes v) (t' + ttl') d')) = 1) \<and>
         (RowsAffected (fst (exec_insert_ignore_kv k' (toBytes v) (t' + ttl') d')) = 1) =
           (cache_kvs d' k' = None) \<and>
         (cache_kvs d' k' = None \<longrightarrow>
            cache_kvs (snd (SetNX k' v ttl' t' d')) k' =
              Some \<lparr>CacheValue = string_of_bytes (toBytes v), ExpireTime = t' + ttl'\<rparr>) \<and>
         (cache_kvs d' k' = Some row \<longrightarrow> snd (SetNX k' v ttl' t' d') = d')"
  using assms by (auto simp add: kv_defs split: option.splits)

theorem SetNX_twice_witness:
  "fst (SetNX ''k'' (AString ''v1'' :: unit any) 5 100 empty_db) = Inr True \<and>
   fst (SetNX ''k'' (AString ''v2'' :: unit any) 5 101
          (snd (SetNX ''k'' (AString ''v1'' :: unit any) 5 100 empty_db))) = Inr False \<and>
   GetString ''k'' 102
     (snd (SetNX ''k'' (AString ''v2'' :: unit any) 5 101
             (snd (SetNX ''k'' (AString ''v1'' :: unit any) 5 100 empty_db)))) = Inr ''v1'' \<and>
   snd (SetNX ''k'' (AString ''v2'' :: unit any) 9 200 counter_db) = counter_db"
proof -
  have absent: "cache_kvs empty_db ''k'' = None"
    by (simp add: empty_db_def)
  have present: "cache_kvs counter_db ''k'' = Some \<lparr>CacheValue = ''5'', ExpireTime = 100\<rparr>"
    by (simp add: counter_db_def)
  from SetNX_twice [OF absent, of "AString ''v1''" 5 100 "AString ''v2''" 5 101 102
      "''k''" "AString ''v2''" 9 200 counter_db "\<lparr>CacheValue = ''5'', ExpireTime = 100\<rparr>",
      simplified] present
  show ?thesis by blast
qed

text \<open>
  Claim C9, as the code has it. For a value whose dynamic type is neither
  \<open>[]byte\<close> nor \<open>string\<close>, \<open>toBytes\<close> returns nil, and \<open>Set\<close> and \<open>SetNX\<close>, which
  check nothing, behave as they do for a nil byte slice: they send \<open>NULL\<close>
  for \<open>cache_value\<close>. \<open>Set\<close> returns the error of the store and writes
  nothing. \<open>SetNX\<close> reports no error, returns true exactly when no row with
  the key existed, and then has stored the empty value.
\<close>

theorem toBytes_other_sent_as_null:
  "toBytes (AOther x) = nil \<and>
   Set k (AOther x) ttl t d = Set k (ABytes nil) ttl t d \<and>
   SetNX k (AOther x) ttl t d = SetNX k (ABytes nil) ttl t d \<and>
   fst (Set k (AOther x) ttl t d) = Some (StoreError ''cache_value cannot be null'') \<and>
   snd (Set k (AOther x) ttl t d) = d \<and>
   fst (SetNX k (AOther x) ttl t d) = Inr (cache_kvs d k = None) \<and>
   (cache_kvs d k = None \<longrightarrow>
      cache_kvs (snd (SetNX k (AOther x) ttl t d)) k = Some \<lparr>CacheValue = [], ExpireTime = t + ttl\<rparr>) \<and>
   (cache_kvs d k = Some row \<longrightarrow> snd (SetNX k (AOther x) ttl t d) = d)"
  by (simp add: kv_defs split: option.splits)

theorem toBytes_other_sent_as_null_witness:
  "fst (Set ''k'' (AOther (42 :: int)) 5 100 empty_db) =
     Some (StoreError ''cache_value cannot be null'') \<and>
   snd (Set ''k'' (AOther (42 :: int)) 5 100 empty_db) = empty_db \<and>
   fst (SetNX ''k'' (AOther (42 :: int)) 5 100 empty_db) = Inr True \<and>
   cache_kvs (snd (SetNX ''k'' (AOther (42 :: int)) 5 100 empty_db)) ''k'' =
     Some \<lparr>CacheValue = [], ExpireTime = 105\<rparr> \<and>
   fst (SetNX ''k'' (AOther (42 :: int)) 5 100 counter_db) = Inr False \<and>
   snd (SetNX ''k'' (AOther (42 :: int)) 5 100 counter_db) = counter_db"
proof -
  have absent: "cache_kvs empty_db ''k'' = None"
    by (simp add: empty_db_def)
  have present: "cache_kvs counter_db ''k'' = Some \<lparr>CacheValue = ''5'', ExpireTime = 100\<rparr>"
    by (simp add: counter_db_def)
  note inserted =
    toBytes_other_sent_as_null [of "42 :: int" "''k''" 5 100 empty_db, simplified absent, simplified]
  note blocked =
    toBytes_other_sent_as_null [of "42 :: int" "''k''" 5 100 counter_db
      "\<lparr>CacheValue = ''5'', ExpireTime = 100\<rparr>", simplified present, simplified]
  from inserted blocked show ?thesis by blast
qed

text \<open>
  \<open>Set\<close> with the integer 42 as its value, on empty tables: the call returns
  an error and the key has no row afterwards.
\<close>

theorem Set_other_type_fails:
  "fst (Set ''k'' (AOther (42 :: int)) 5 100 empty_db) \<noteq> None \<and>
   cache_kvs (snd (Set ''k'' (AOther (42 :: int)) 5 100 empty_db)) ''k'' = None \<and>
   GetString ''k'' 101 (snd (Set ''k'' (AOther (42 :: int)) 5 100 empty_db)) = Inl ErrNotFound"
  by (simp add: kv_defs empty_db_def)

text \<open>
  Claim C10. When the row of \<open>k\<close> is in the table with an expiry that has
  passed, \<open>GetString k\<close> fails with \<open>ErrNotFound\<close>, \<open>Expire k ttl\<close> with
  \<open>ttl > 0\<close> returns true with no error, and afterwards, until the new
  expiry \<open>now + ttl\<close>, \<open>GetString k\<close> returns the value the row held.
\<close>

theorem Expire_resurrects:
  assumes "cache_kvs d k = Some row" and "ExpireTime row \<le> now" and "0 < ttl"
  shows "GetString k now d = Inl ErrNotFound \<and>
         fst (Expire k ttl now d) = (True, None) \<and>
         (now \<le> t \<and> t < now + ttl \<longrightarrow>
            GetString k t (snd (Expire k ttl now d)) = Inr (CacheValue row))"
  using assms by (simp add: kv_defs)

theorem Expire_resurrects_witness:
  "GetString ''k'' 150 counter_db = Inl ErrNotFound \<and>
   fst (Expire ''k'' 10 150 counter_db) = (True, None) \<and>
   GetString ''k'' 159 (snd (Expire ''k'' 10 150 counter_db)) = Inr ''5''"
proof -
  have row: "cache_kvs counter_db ''k'' = Some \<lparr>CacheValue = ''5'', ExpireTime = 100\<rparr>"
    by (simp add: counter_db_def)
  have expired: "ExpireTime \<lparr>CacheValue = ''5'', ExpireTime = 100\<rparr> \<le> 150" by simp
  have ttl: "(0::int) < 10" by simp
  have within: "(150::int) \<le> 159 \<and> (159::int) < 150 + 10" by simp
  from Expire_resurrects [OF row expired ttl, of 159] within show ?thesis by simp
qed

section \<open>The counter\<close>

text \<open>What \<open>FormatInt\<close> writes, \<open>ParseInt\<close> reads back.\<close>

lemma digit_char_digit:
  assumes "n < 10"
  shows "is_digit (digit_char n) \<and> of_char (digit_char n) - 48 = n"
proof -
  from assms have "n \<in> {0, 1, 2, 3, 4, 5, 6, 7, 8, 9}" by auto
  then show ?thesis
    by (auto simp add: digit_char_def is_digit_def)
qed

lemma ParseUint_loop_append:
  "ParseUint_loop a (xs @ [c]) =
     (case ParseUint_loop a xs of Inl e \<Rightarrow> Inl e | Inr m \<Rightarrow> ParseUint_loop m [c])"
  by (induction xs arbitrary: a) simp_all

lemma ParseUint_loop_format_nat:
  "n < 2 ^ 64 \<Longrightarrow> ParseUint_loop 0 (format_nat n) = Inr n"
proof (induction n rule: format_nat.induct)
  case (1 n)
  show ?case
  proof (cases "n < 10")
    case True
    with "1.prems" digit_char_digit [OF True] show ?thesis
      by (subst format_nat.simps) simp
  next
    case False
    have "n div 10 < 2 ^ 64" using "1.prems" by simp
    with False have front: "ParseUint_loop 0 (format_nat (n div 10)) = Inr (n div 10)"
      by (intro "1.IH") simp_all
    have "n mod 10 < 10" by simp
    note digit = digit_char_digit [OF this]
    have "n div 10 * 10 + n mod 10 = n" by simp
    with "1.prems" have "ParseUint_loop (n div 10) [digit_char (n mod 10)] = Inr n"
      using digit by simp
    with False front show ?thesis
      by (subst format_nat.simps) (simp add: ParseUint_loop_append)
  qed
qed

lemma format_nat_starts_with_digit:
  "format_nat n \<noteq> [] \<and> is_digit (hd (format_nat n))"
proof (induction n rule: format_nat.induct)
  case (1 n)
  show ?case
  proof (cases "n < 10")
    case True
    with digit_char_digit [OF True] show ?thesis
      by (subst (1 2) format_nat.simps) simp
  next
    case False
    with "1.IH" show ?thesis
      by (subst (1 2) format_nat.simps) simp
  qed
qed

lemma sign_not_digit: "\<not> is_digit CHR ''-''" "\<not> is_digit CHR ''+''"
  by (simp_all add: is_digit_def)

lemma ParseInt_FormatInt: "ParseInt (FormatInt i) = Inr i"
proof (cases "sint i < 0")
  case True
  define m where "m = nat (- sint i)"
  have "- (2 ^ 63) \<le> sint i" using sint_ge [of i] by simp
  with True have m: "m \<le> 2 ^ 63" "m < 2 ^ 64"
    by (simp_all add: m_def nat_le_iff nat_less_iff)
  have "(of_nat m :: int64) = of_int (- sint i)"
    using True by (simp add: m_def)
  then have restored: "- (of_nat m :: int64) = i" by simp
  have "ParseUint (format_nat m) = Inr m"
    using format_nat_starts_with_digit [of m] ParseUint_loop_format_nat [OF m(2)]
    by (simp add: ParseUint_def)
  with True m(1) restored show ?thesis
    by (simp add: FormatInt_def ParseInt_def m_def [symmetric])
next
  case False
  define m where "m = nat (sint i)"
  have "sint i < 2 ^ 63" using sint_lt [of i] by simp
  with False have m: "m < 2 ^ 63" "m < 2 ^ 64"
    by (simp_all add: m_def nat_less_iff)
  have "(of_nat m :: int64) = of_int (sint i)"
    using False by (simp add: m_def)
  then have restored: "(of_nat m :: int64) = i" by simp
  have digit: "is_digit (hd (format_nat m))" and nonempty: "format_nat m \<noteq> []"
    using format_nat_starts_with_digit [of m] by simp_all
  from digit sign_not_digit have hd: "hd (format_nat m) \<noteq> CHR ''-''" "hd (format_nat m) \<noteq> CHR ''+''"
    by auto
  have "ParseUint (format_nat m) = Inr m"
    using nonempty ParseUint_loop_format_nat [OF m(2)] by (simp add: ParseUint_def)
  with False m(1) restored hd nonempty show ?thesis
    by (simp add: FormatInt_def ParseInt_def m_def [symmetric])
qed

text \<open>
  Claim C1, as the code has it. \<open>IncrBy\<close> reads the live value of the key
  inside a transaction, takes 0 when the key is not found, adds \<open>delta\<close> as a
  64-bit sum, and writes the decimal string of the sum back through \<open>Set\<close>
  with \<open>ttl = 0\<close>, so the row gets the expiry that \<open>Set\<close> gives to \<open>ttl = 0\<close>
  in place of the one it had; \<open>ParseInt\<close> reads the written string back as
  the sum. The call returns the sum. When the stored value does not parse,
  the call returns the error of \<open>ParseInt\<close> and the tables are as before.
\<close>

theorem IncrBy_reads_adds_writes:
  "(GetString key now_get d = Inl ErrNotFound \<longrightarrow>
      IncrBy key v now_get now_set d =
        (IntCmdAdapter v None, snd (Set key (AString (FormatInt v) :: unit any) 0 now_set d))) \<and>
   (GetString key now_get d = Inr s \<and> ParseInt s = Inr current \<longrightarrow>
      IncrBy key v now_get now_set d =
        (IntCmdAdapter (current + v) None,
         snd (Set key (AString (FormatInt (current + v)) :: unit any) 0 now_set d))) \<and>
   (GetString key now_get d = Inr s \<and> ParseInt s = Inl e \<longrightarrow>
      IncrBy key v now_get now_set d = (IntCmdAdapter 0 (Some e), d)) \<and>
   ParseInt (FormatInt (current + v)) = Inr (current + v) \<and>
   map_option CacheValue
     (cache_kvs (snd (Set key (AString (FormatInt (current + v)) :: unit any) 0 now_set d)) key) =
     Some (FormatInt (current + v))"
  by (auto simp add: ParseInt_FormatInt IncrBy_def Transaction_def IncrBy_closure_def
      Set_def exec_upsert_kv_def Let_def)

theorem IncrBy_reads_adds_writes_witness:
  "IncrBy ''k'' 1 10 10 counter_db =
     (IntCmdAdapter 6 None, snd (Set ''k'' (AString ''6'' :: unit any) 0 10 counter_db)) \<and>
   IncrBy ''k'' 1 10 10 empty_db =
     (IntCmdAdapter 1 None, snd (Set ''k'' (AString ''1'' :: unit any) 0 10 empty_db)) \<and>
   IncrBy ''k'' 1 10 10 text_db = (IntCmdAdapter 0 (Some ErrSyntax), text_db)"
proof -
  have six: "FormatInt 6 = ''6''" and one: "FormatInt 1 = ''1''"
    by (simp_all add: FormatInt_def format_nat.simps digit_char_def)
  have live: "GetString ''k'' 10 counter_db = Inr ''5'' \<and> ParseInt ''5'' = Inr 5"
    by (simp add: kv_defs counter_db_def ParseInt_def ParseUint_def is_digit_def)
  have absent: "GetString ''k'' 10 empty_db = Inl ErrNotFound"
    by (simp add: kv_defs empty_db_def)
  have unparsed: "GetString ''k'' 10 text_db = Inr ''abc'' \<and> ParseInt ''abc'' = Inl ErrSyntax"
    by (simp add: kv_defs text_db_def ParseInt_def ParseUint_def is_digit_def)
  from IncrBy_reads_adds_writes [of "''k''" 10 counter_db 1 10 "''5''" 5 ErrSyntax] live
  have "IncrBy ''k'' 1 10 10 counter_db =
          (IntCmdAdapter (5 + 1) None,
           snd (Set ''k'' (AString (FormatInt (5 + 1)) :: unit any) 0 10 counter_db))"
    by blast
  then have a: "IncrBy ''k'' 1 10 10 counter_db =
          (IntCmdAdapter 6 None, snd (Set ''k'' (AString ''6'' :: unit any) 0 10 counter_db))"
    by (simp add: six)
  from IncrBy_reads_adds_writes [of "''k''" 10 empty_db 1 10 "''5''" 5 ErrSyntax] absent
  have "IncrBy ''k'' 1 10 10 empty_db =
          (IntCmdAdapter 1 None, snd (Set ''k'' (AString (FormatInt 1) :: unit any) 0 10 empty_db))"
    by blast
  then have b: "IncrBy ''k'' 1 10 10 empty_db =
          (IntCmdAdapter 1 None, snd (Set ''k'' (AString ''1'' :: unit any) 0 10 empty_db))"
    by (simp add: one)
  from IncrBy_reads_adds_writes [of "''k''" 10 text_db 1 10 "''abc''" 5 ErrSyntax] unparsed
  have c: "IncrBy ''k'' 1 10 10 text_db = (IntCmdAdapter 0 (Some ErrSyntax), text_db)"
    by blast
  from a b c show ?thesis by blast
qed

text \<open>
  On \<open>counter_db\<close> the row of \<open>k\<close> expires at 100. \<open>IncrBy k 1\<close> at clock
  reading 10 returns 6 and leaves the row with another expiry.
\<close>

theorem IncrBy_changes_expiry:
  "cache_kvs counter_db ''k'' = Some \<lparr>CacheValue = ''5'', ExpireTime = 100\<rparr> \<and>
   fst (IncrBy ''k'' 1 10 10 counter_db) = IntCmdAdapter 6 None \<and>
   cache_kvs (snd (IncrBy ''k'' 1 10 10 counter_db)) ''k'' =
     Some \<lparr>CacheValue = ''6'', ExpireTime = 10\<rparr> \<and>
   ExpireTime (the (cache_kvs (snd (IncrBy ''k'' 1 10 10 counter_db)) ''k'')) \<noteq>
     ExpireTime (the (cache_kvs counter_db ''k''))"
  by (simp add: IncrBy_def Transaction_def IncrBy_closure_def kv_defs counter_db_def
      FormatInt_def format_nat.simps digit_char_def ParseInt_def ParseUint_def is_digit_def)

section \<open>The command adapter\<close>

text \<open>
  Claim C5. Each list command of the adapter (\<open>LIndex\<close>, \<open>LPush\<close>, \<open>RPush\<close>,
  \<open>LSet\<close>, \<open>LPop\<close>, \<open>LRange\<close>), for every key and arguments, returns a result
  whose error is \<open>ErrNotFound\<close> and whose value is the zero value, and leaves
  the tables as they are; executing the adapter's pipeline returns no
  commands and \<open>ErrNotFound\<close>.
\<close>

theorem list_commands_fail:
  "String_Result (fst (LIndex key index d)) = ([], Some ErrNotFound) \<and> snd (LIndex key index d) = d \<and>
   Int_Result (fst (LPush key values d)) = (0, Some ErrNotFound) \<and> snd (LPush key values d) = d \<and>
   Int_Result (fst (RPush key values d)) = (0, Some ErrNotFound) \<and> snd (RPush key values d) = d \<and>
   Status_Result (fst (LSet key index v d)) = ([], Some ErrNotFound) \<and> snd (LSet key index v d) = d \<and>
   String_Result (fst (LPop key d)) = ([], Some ErrNotFound) \<and> snd (LPop key d) = d \<and>
   StringSlice_Result (fst (LRange key start stop d)) = ([], Some ErrNotFound) \<and>
   snd (LRange key start stop d) = d \<and>
   fst (Exec Pipeline d) = ([], Some ErrNotFound) \<and> snd (Exec Pipeline d) = d"
  by (simp add: LIndex_def LPush_def RPush_def LSet_def LPop_def LRange_def Exec_def
      String_Result_def Int_Result_def Status_Result_def StringSlice_Result_def)

theorem list_commands_fail_witness:
  "string_err (fst (LIndex ''k'' 0 empty_db)) = Some ErrNotFound \<and>
   int_err (fst (LPush ''k'' [AString ''a'' :: unit any] empty_db)) = Some ErrNotFound \<and>
   int_err (fst (RPush ''k'' [AString ''a'' :: unit any] empty_db)) = Some ErrNotFound \<and>
   status_err (fst (LSet ''k'' 0 (AString ''a'' :: unit any) empty_db)) = Some ErrNotFound \<and>
   string_err (fst (LPop ''k'' empty_db)) = Some ErrNotFound \<and>
   slice_err (fst (LRange ''k'' 0 1 empty_db)) = Some ErrNotFound \<and>
   snd (fst (Exec Pipeline empty_db)) = Some ErrNotFound"
  using list_commands_fail
    [of "''k''" 0 empty_db "[AString ''a'' :: unit any]" "AString ''a'' :: unit any" 0 1]
  by (simp add: String_Result_def Int_Result_def Status_Result_def StringSlice_Result_def)

lemma SetMapField_no_error: "fst (SetMapField key field v d) = None"
  by (simp add: SetMapField_def exec_upsert_map_def)

lemma string_pairs_step:
  "string_pairs (x # y # rest) =
     (case (x, y) of (AString field, AString v) \<Rightarrow> (field, v) # string_pairs rest
      | _ \<Rightarrow> string_pairs rest)"
  by (cases x; cases y) simp_all

lemma drop_two:
  assumes "i + 1 < length xs"
  shows "drop i xs = xs ! i # xs ! (i + 1) # drop (i + 2) xs"
proof -
  have "drop i xs = xs ! i # drop (Suc i) xs"
    using assms by (simp add: Cons_nth_drop_Suc)
  also have "drop (Suc i) xs = xs ! (i + 1) # drop (i + 2) xs"
    using assms by (simp add: Cons_nth_drop_Suc)
  finally show ?thesis .
qed

lemma string_pairs_short: "length xs < 2 \<Longrightarrow> string_pairs xs = []"
  by (cases xs rule: string_pairs.cases) simp_all

lemma HSet_loop_pairs:
  "HSet_loop key values i d = (None, store_pairs key (string_pairs (drop i values)) d)"
proof (induction "length values - i" arbitrary: i d rule: less_induct)
  case less
  show ?case
  proof (cases "int i < int (length values) - 1")
    case False
    then have "length (drop i values) < 2" by simp
    then have "string_pairs (drop i values) = []" by (rule string_pairs_short)
    with False show ?thesis
      by (subst HSet_loop.simps) (simp add: store_pairs_def)
  next
    case True
    then have lt: "i + 1 < length values" by simp
    note dr = drop_two [OF lt]
    have IH: "HSet_loop key values (i + 2) d' =
                (None, store_pairs key (string_pairs (drop (i + 2) values)) d')" for d'
      using lt by (intro less) simp
    show ?thesis
    proof (cases "\<exists>field v. values ! i = AString field \<and> values ! (i + 1) = AString v")
      case True
      then obtain field v where fv: "values ! i = AString field" "values ! (i + 1) = AString v"
        by blast
      obtain e d' where s: "SetMapField key field v d = (e, d')"
        by (cases "SetMapField key field v d")
      with SetMapField_no_error [of key field v d] have e: "e = None" by simp
      have "HSet_loop key values i d = HSet_loop key values (i + 2) d'"
        using lt fv s e by (subst HSet_loop.simps) simp
      also have "\<dots> = (None, store_pairs key (string_pairs (drop (i + 2) values)) d')"
        by (rule IH)
      also have "store_pairs key (string_pairs (drop (i + 2) values)) d' =
                 store_pairs key (string_pairs (drop i values)) d"
        using fv s by (simp add: dr store_pairs_def)
      finally show ?thesis .
    next
      case False
      then have sp: "string_pairs (drop i values) = string_pairs (drop (i + 2) values)"
        by (auto simp add: dr string_pairs_step split: any.splits)
      have "HSet_loop key values i d = HSet_loop key values (i + 2) d"
        using lt False by (subst HSet_loop.simps) (auto split: any.splits)
      with IH [of d] sp show ?thesis by simp
    qed
  qed
qed

text \<open>
  Claim C6, as the code has it. \<open>HSet\<close> fails, with \<open>ErrNotFound\<close> and
  without storing anything, exactly when the sequence has fewer than 2
  elements. For every longer sequence, of even or odd length, it returns 1
  with no error after one \<open>SetMapField\<close>, in order, for each pair taken two
  elements at a time from the front in which both elements are strings; the
  element left alone at the end of a sequence of odd length and the pairs
  with an element that is not a string are passed over.
\<close>

theorem HSet_stores_string_pairs:
  "HSet key values d =
     (if length values < 2 then (IntCmdAdapter 0 (Some ErrNotFound), d)
      else (IntCmdAdapter 1 None, store_pairs key (string_pairs values) d))"
  by (simp add: HSet_def HSet_loop_pairs)

theorem HSet_stores_string_pairs_witness:
  "HSet ''k'' [AString ''a'', AOther (7 :: int), AString ''f'', AString ''v'', AString ''x''] empty_db =
     (IntCmdAdapter 1 None,
      empty_db\<lparr>cache_maps := [\<lparr>CacheKey = ''k'', CacheField = ''f'', MapValue = ''v''\<rparr>]\<rparr>) \<and>
   HSet ''k'' [AString ''a'' :: int any] empty_db = (IntCmdAdapter 0 (Some ErrNotFound), empty_db)"
  using HSet_stores_string_pairs
      [of "''k''" "[AString ''a'', AOther (7 :: int), AString ''f'', AString ''v'', AString ''x'']" empty_db]
    HSet_stores_string_pairs [of "''k''" "[AString ''a'' :: int any]" empty_db]
  by (simp add: store_pairs_def SetMapField_def exec_upsert_map_def empty_db_def)

text \<open>
  The sequence \<open>f, v, x\<close> has odd length, and \<open>HSet\<close> on it returns 1 with no
  error, having stored \<open>f \<mapsto> v\<close>.
\<close>

theorem HSet_odd_length_succeeds:
  "odd (length [AString ''f'', AString ''v'', AString ''x'' :: unit any]) \<and>
   fst (HSet ''k'' [AString ''f'', AString ''v'', AString ''x'' :: unit any] empty_db) =
     IntCmdAdapter 1 None \<and>
   cache_maps (snd (HSet ''k'' [AString ''f'', AString ''v'', AString ''x'' :: unit any] empty_db)) =
     [\<lparr>CacheKey = ''k'', CacheField = ''f'', MapValue = ''v''\<rparr>]"
  by (simp add: HSet_def HSet_loop.simps SetMapField_def exec_upsert_map_def empty_db_def)

section \<open>Scanning a map page by page\<close>

lemma length_flatten: "length (flatten rows) = 2 * length rows"
  by (induction rows) (simp_all add: flatten_def)

lemma flatten_append: "flatten (xs @ ys) = flatten xs @ flatten ys"
  by (simp add: flatten_def)

lemma sint_cursor:
  assumes "c < 2 ^ 63"
  shows "sint (of_nat c :: 64 word) = int c"
proof -
  have "int c < 2 ^ 63" using assms by (simp flip: of_nat_less_iff)
  then show ?thesis
    by (simp add: signed_of_nat signed_take_bit_int_eq_self)
qed

lemma cursor_nonzero:
  assumes "0 < c" and "c < 2 ^ 63"
  shows "(of_nat c :: 64 word) \<noteq> 0"
proof -
  have "c < 2 ^ LENGTH(64)" using assms(2) by simp
  with assms(1) show ?thesis by (rule of_nat_neq_0)
qed

text \<open>One page, read at a cursor that is not negative as an \<open>int\<close>.\<close>

lemma ScanMapStream_page:
  assumes p: "1 \<le> sint p" and c: "c < 2 ^ 63"
  shows "ScanMapStream like key (of_nat c) [] p d =
           (flatten (take (nat (sint p)) (drop c (map_rows key d))),
            (if length (map_rows key d) - c < nat (sint p) then 0
             else of_nat (c + nat (sint p))),
            None)"
proof -
  let ?rows = "map_rows key d"
  let ?P = "nat (sint p)"
  have sc: "sint (of_nat c :: 64 word) = int c"
    using c by (rule sint_cursor)
  have off: "Offset (int c) ?rows = drop c ?rows"
    by (cases "c = 0") (simp_all add: Offset_def)
  have lim: "Limit (sint p) (drop c ?rows) = take ?P (drop c ?rows)"
    using p by (simp add: Limit_def)
  have cm: "Limit (sint p) (Offset (sint (of_nat c :: 64 word)) ?rows) = take ?P (drop c ?rows)"
    by (simp only: sc off lim)
  have fewer: "(int (length (take ?P (drop c ?rows))) < sint p) = (length ?rows - c < ?P)"
    using p by (auto simp add: min_def)
  have next_cursor: "(of_nat c :: 64 word) + of_nat (length (take ?P (drop c ?rows))) = of_nat (c + ?P)"
    if "\<not> length ?rows - c < ?P"
    using that by (simp add: min_def)
  have call: "ScanMapStream like key cursor [] p d =
                (flatten (Limit (sint p) (Offset (sint cursor) ?rows)),
                 (if int (length (Limit (sint p) (Offset (sint cursor) ?rows))) < sint p then 0
                  else cursor + of_nat (length (Limit (sint p) (Offset (sint cursor) ?rows)))),
                 None)" for cursor
    by (simp add: ScanMapStream_def Let_def)
  show ?thesis
  proof (cases "length ?rows - c < ?P")
    case True
    then show ?thesis
      unfolding call cm fewer by simp
  next
    case False
    then show ?thesis
      unfolding call cm fewer next_cursor [OF False] by simp
  qed
qed

lemma scan_all_from:
  assumes p: "1 \<le> sint p" and len: "length (map_rows key d) < 2 ^ 63"
  shows "c \<le> length (map_rows key d) \<Longrightarrow> length (map_rows key d) - c < n \<Longrightarrow>
         scan_all n like key (of_nat c) [] p d = Some (flatten (drop c (map_rows key d)))"
proof (induction n arbitrary: c)
  case 0
  then show ?case by simp
next
  case (Suc n)
  let ?rows = "map_rows key d"
  let ?P = "nat (sint p)"
  have P: "0 < ?P" using p by simp
  have "c < 2 ^ 63" using Suc.prems(1) len by simp
  note page = ScanMapStream_page [OF p this, of like key d]
  show ?case
  proof (cases "length ?rows - c < ?P")
    case True
    then have "take ?P (drop c ?rows) = drop c ?rows" by simp
    with True show ?thesis by (simp add: page)
  next
    case False
    with Suc.prems(1) have le: "c + ?P \<le> length ?rows" by simp
    then have nz: "(of_nat (c + ?P) :: 64 word) \<noteq> 0"
      using P len by (intro cursor_nonzero) simp_all
    have "length ?rows - (c + ?P) < n"
      using Suc.prems(2) P le by simp
    with le have rest: "scan_all n like key (of_nat (c + ?P)) [] p d =
                          Some (flatten (drop (c + ?P) ?rows))"
      by (rule Suc.IH)
    have "flatten (take ?P (drop c ?rows)) @ flatten (drop (c + ?P) ?rows) =
            flatten (take ?P (drop c ?rows) @ drop ?P (drop c ?rows))"
      by (simp add: flatten_append add.commute)
    also have "\<dots> = flatten (drop c ?rows)"
      by (simp only: append_take_drop_id)
    finally have cat: "flatten (take ?P (drop c ?rows)) @ flatten (drop (c + ?P) ?rows) =
                         flatten (drop c ?rows)" .
    show ?thesis
      using False nz rest cat by (simp add: page del: of_nat_add)
  qed
qed

text \<open>
  Claim C7. For a map of fewer than \<open>2 ^ 63\<close> fields and a page size
  \<open>p \<ge> 1\<close>, with no match pattern and the table unchanged between the
  calls: the scan that starts at cursor 0 and follows the returned cursors
  reaches cursor 0 within \<open>M + 1\<close> calls, and its pages, one after the other,
  are the fields and values of the \<open>M\<close> rows of the map, each row once, in
  the order of the rows. A call at a cursor that is not negative as an \<open>int\<close>
  returns cursor 0 exactly when it returns fewer than \<open>p\<close> rows (fewer than
  \<open>2 * p\<close> strings).
\<close>

theorem ScanMapStream_pages:
  assumes "1 \<le> sint p" and "length (map_rows key d) < 2 ^ 63"
  shows "scan_all (Suc (length (map_rows key d))) like key 0 [] p d =
           Some (flatten (map_rows key d)) \<and>
         (0 \<le> sint cursor \<longrightarrow>
            (fst (snd (ScanMapStream like key cursor [] p d)) = 0) =
            (length (fst (ScanMapStream like key cursor [] p d)) < 2 * nat (sint p)))"
proof -
  have "scan_all (Suc (length (map_rows key d))) like key (of_nat 0) [] p d =
          Some (flatten (drop 0 (map_rows key d)))"
    using assms by (intro scan_all_from) simp_all
  then have all: "scan_all (Suc (length (map_rows key d))) like key 0 [] p d =
                    Some (flatten (map_rows key d))"
    by simp
  have "(fst (snd (ScanMapStream like key cursor [] p d)) = 0) =
        (length (fst (ScanMapStream like key cursor [] p d)) < 2 * nat (sint p))"
    if nonneg: "0 \<le> sint cursor"
  proof -
    define c where "c = nat (sint cursor)"
    have "sint cursor < 2 ^ 63"
      using sint_lt [of cursor] by simp
    with nonneg have c: "c < 2 ^ 63"
      by (simp add: c_def nat_less_iff)
    have "(of_nat c :: 64 word) = of_int (sint cursor)"
      using nonneg by (simp add: c_def)
    then have cursor: "cursor = of_nat c"
      by simp
    note page = ScanMapStream_page [OF assms(1) c, of like key d]
    show ?thesis
    proof (cases "length (map_rows key d) - c < nat (sint p)")
      case True
      then show ?thesis
        unfolding cursor by (simp add: page length_flatten)
    next
      case False
      then have "0 < c + nat (sint p)" and "c + nat (sint p) < 2 ^ 63"
        using assms by simp_all
      then have "(of_nat (c + nat (sint p)) :: 64 word) \<noteq> 0"
        by (rule cursor_nonzero)
      with False show ?thesis
        unfolding cursor by (simp add: page length_flatten del: of_nat_add)
    qed
  qed
  with all show ?thesis by blast
qed

theorem ScanMapStream_pages_witness:
  "scan_all 4 (\<lambda>field pattern. True) ''k'' 0 [] 2 scan_db =
     Some [''a'', ''1'', ''b'', ''2'', ''c'', ''3''] \<and>
   fst (ScanMapStream (\<lambda>field pattern. True) ''k'' 2 [] 2 scan_db) = [''c'', ''3''] \<and>
   fst (snd (ScanMapStream (\<lambda>field pattern. True) ''k'' 2 [] 2 scan_db)) = 0"
proof -
  have rows: "map_rows ''k'' scan_db =
      [\<lparr>CacheKey = ''k'', CacheField = ''a'', MapValue = ''1''\<rparr>,
       \<lparr>CacheKey = ''k'', CacheField = ''b'', MapValue = ''2''\<rparr>,
       \<lparr>CacheKey = ''k'', CacheField = ''c'', MapValue = ''3''\<rparr>]"
    by (simp add: map_rows_def scan_db_def)
  have p: "1 \<le> sint (2 :: int64)" by simp
  have len: "length (map_rows ''k'' scan_db) < 2 ^ 63" by (simp add: rows)
  have cursor: "0 \<le> sint (2 :: uint64)" by simp
  note pages = ScanMapStream_pages [OF p len, of "\<lambda>field pattern. True" 2]
  from pages
  have "scan_all (Suc (length (map_rows ''k'' scan_db))) (\<lambda>field pattern. True) ''k'' 0 [] 2 scan_db =
          Some (flatten (map_rows ''k'' scan_db))"
    by blast
  then have all: "scan_all 4 (\<lambda>field pattern. True) ''k'' 0 [] 2 scan_db =
          Some [''a'', ''1'', ''b'', ''2'', ''c'', ''3'']"
    by (simp add: rows flatten_def eval_nat_numeral)
  have last_page: "fst (ScanMapStream (\<lambda>field pattern. True) ''k'' 2 [] 2 scan_db) = [''c'', ''3'']"
    by (simp add: ScanMapStream_def Let_def rows Offset_def Limit_def flatten_def)
  from pages cursor
  have "(fst (snd (ScanMapStream (\<lambda>field pattern. True) ''k'' 2 [] 2 scan_db)) = 0) =
        (length (fst (ScanMapStream (\<lambda>field pattern. True) ''k'' 2 [] 2 scan_db))
           < 2 * nat (sint (2 :: int64)))"
    by blast
  then have "fst (snd (ScanMapStream (\<lambda>field pattern. True) ''k'' 2 [] 2 scan_db)) = 0"
    by (simp add: last_page)
  with all last_page show ?thesis by blast
qed

section \<open>The order of delivery to a subscriber\<close>

lemma poll_messages_sorted: "sorted (map ID (poll_messages channel lastId table))"
proof -
  have "sorted (map ID (sort_key ID (filter (\<lambda>m. Channel m = channel \<and> ID m > lastId) table)))"
    by (rule sorted_sort_key)
  then have "sorted (take 10 (map ID (sort_key ID (filter (\<lambda>m. Channel m = channel \<and> ID m > lastId) table))))"
    by (rule sorted_wrt_take)
  then show ?thesis by (simp add: poll_messages_def take_map)
qed

lemma poll_messages_set:
  "m \<in> set (poll_messages channel lastId table) \<Longrightarrow>
     lastId < ID m \<and> Channel m = channel \<and> m \<in> set table"
  by (auto simp add: poll_messages_def dest!: in_set_takeD)

lemma poll_messages_length: "length (poll_messages channel lastId table) \<le> 10"
  by (simp add: poll_messages_def)

lemma sorted_last_greatest:
  "sorted (map f xs) \<Longrightarrow> x \<in> set xs \<Longrightarrow> f x \<le> f (last xs)"
  by (induction xs) auto

lemma hand_off_keeps_order:
  assumes "sorted (map ID messages)" and "\<forall>m \<in> set messages. LastMessageId s \<le> ID m"
    and "delivered_in_order s"
  shows "delivered_in_order (fst (hand_off stop messages s))"
  using assms
proof (induction stop messages s rule: hand_off.induct)
  case (1 stop s)
  then show ?case by simp
next
  case (2 msg messages s)
  then show ?case by simp
next
  case (3 n msg messages s)
  let ?s = "s\<lparr>ch := ch s @ [msg], LastMessageId := ID msg, last_message_id := Some (ID msg)\<rparr>"
  have "delivered_in_order ?s"
    using "3.prems" by (auto simp add: delivered_in_order_def sorted_append split: if_splits
        dest: sorted_last_greatest [of ID])
  moreover have "sorted (map ID messages)" "\<forall>m \<in> set messages. LastMessageId ?s \<le> ID m"
    using "3.prems" by simp_all
  ultimately show ?case using "3.IH" by simp
next
  case (4 msg messages s)
  let ?s = "s\<lparr>ch := ch s @ [msg], LastMessageId := ID msg, last_message_id := Some (ID msg)\<rparr>"
  have "delivered_in_order ?s"
    using "4.prems" by (auto simp add: delivered_in_order_def sorted_append split: if_splits
        dest: sorted_last_greatest [of ID])
  moreover have "sorted (map ID messages)" "\<forall>m \<in> set messages. LastMessageId ?s \<le> ID m"
    using "4.prems" by simp_all
  ultimately show ?case using "4.IH" by simp
qed

lemma hand_off_channel:
  assumes "\<forall>m \<in> set messages. Channel m = channel" and "\<forall>m \<in> set (ch s). Channel m = channel"
  shows "\<forall>m \<in> set (ch (fst (hand_off stop messages s))). Channel m = channel"
  using assms by (induction stop messages s rule: hand_off.induct) simp_all

lemma finish_keeps_order: "delivered_in_order s \<Longrightarrow> delivered_in_order (finish s)"
  by (simp add: delivered_in_order_def finish_def)

lemma poll_loop_keeps_order:
  "delivered_in_order s \<Longrightarrow> delivered_in_order (poll_loop channel evs s)"
proof (induction channel evs s rule: poll_loop.induct)
  case (4 channel table stop evs s)
  let ?batch = "poll_messages channel (LastMessageId s) table"
  obtain s' returned where h: "hand_off stop ?batch s = (s', returned)"
    by (cases "hand_off stop ?batch s")
  have "sorted (map ID ?batch)"
    by (rule poll_messages_sorted)
  moreover have "\<forall>m \<in> set ?batch. LastMessageId s \<le> ID m"
    using poll_messages_set [of _ channel "LastMessageId s" table] by (auto intro: less_imp_le)
  ultimately have "delivered_in_order (fst (hand_off stop ?batch s))"
    using "4.prems" by (rule hand_off_keeps_order)
  then have s': "delivered_in_order s'"
    by (simp add: h)
  show ?case
  proof (cases returned)
    case True
    with h s' show ?thesis by (simp add: finish_keeps_order)
  next
    case False
    with h "4.IH" [OF h [symmetric] _ s'] show ?thesis by simp
  qed
qed (simp_all add: finish_keeps_order)

lemma poll_loop_channel:
  "\<forall>m \<in> set (ch s). Channel m = channel \<Longrightarrow>
   \<forall>m \<in> set (ch (poll_loop channel evs s)). Channel m = channel"
proof (induction channel evs s rule: poll_loop.induct)
  case (4 channel table stop evs s)
  let ?batch = "poll_messages channel (LastMessageId s) table"
  obtain s' returned where h: "hand_off stop ?batch s = (s', returned)"
    by (cases "hand_off stop ?batch s")
  have "\<forall>m \<in> set ?batch. Channel m = channel"
    using poll_messages_set [of _ channel "LastMessageId s" table] by auto
  then have "\<forall>m \<in> set (ch (fst (hand_off stop ?batch s))). Channel m = channel"
    using "4.prems" by (rule hand_off_channel)
  then have s': "\<forall>m \<in> set (ch s'). Channel m = channel"
    by (simp add: h)
  show ?case
  proof (cases returned)
    case True
    with h s' show ?thesis by (simp add: finish_def)
  next
    case False
    with h "4.IH" [OF h [symmetric] _ s'] show ?thesis by simp
  qed
qed (simp_all add: finish_def)

text \<open>
  Claim C8. Whatever the table of messages holds at each poll and whenever
  the subscription is stopped, the messages one subscriber has been sent are
  in non-decreasing order of id and are all of its channel; the in-memory
  \<open>LastMessageId\<close> is \<open>-1\<close> as long as nothing was sent and the id of the
  last message sent afterwards, and the stored \<open>last_message_id\<close> equals it
  until the row is deleted. Each poll returns at most 10 messages, in
  ascending order of id, all of the channel and with an id above the
  \<open>LastMessageId\<close> it was given.
\<close>

theorem Subscribe_in_id_order:
  "sorted (map ID (ch (Subscribe channel evs))) \<and>
   (\<forall>m \<in> set (ch (Subscribe channel evs)). Channel m = channel) \<and>
   LastMessageId (Subscribe channel evs) =
     (if ch (Subscribe channel evs) = [] then - 1 else ID (last (ch (Subscribe channel evs)))) \<and>
   (last_message_id (Subscribe channel evs) = None \<or>
    last_message_id (Subscribe channel evs) = Some (LastMessageId (Subscribe channel evs))) \<and>
   sorted (map ID (poll_messages channel lastId table)) \<and>
   length (poll_messages channel lastId table) \<le> 10 \<and>
   (\<forall>m \<in> set (poll_messages channel lastId table).
      lastId < ID m \<and> Channel m = channel \<and> m \<in> set table)"
proof -
  have "delivered_in_order attach"
    by (simp add: delivered_in_order_def attach_def)
  then have "delivered_in_order (Subscribe channel evs)"
    unfolding Subscribe_def by (rule poll_loop_keeps_order)
  moreover have "\<forall>m \<in> set (ch (Subscribe channel evs)). Channel m = channel"
    unfolding Subscribe_def by (rule poll_loop_channel) (simp add: attach_def)
  ultimately show ?thesis
    using poll_messages_sorted poll_messages_length poll_messages_set
    unfolding delivered_in_order_def by blast
qed

theorem Subscribe_in_id_order_witness:
  "map ID (ch (Subscribe ''c'' subscribe_events)) = [1, 3, 5] \<and>
   map MessageText (ch (Subscribe ''c'' subscribe_events)) = [''m1'', ''m3'', ''m5''] \<and>
   sorted (map ID (ch (Subscribe ''c'' subscribe_events))) \<and>
   LastMessageId (Subscribe ''c'' subscribe_events) = 5 \<and>
   map ID (poll_messages ''c'' 1 messages_2) = [3, 5, 6]"
proof -
  have sent: "ch (Subscribe ''c'' subscribe_events) =
      [\<lparr>ID = 1, Channel = ''c'', MessageText = ''m1''\<rparr>,
       \<lparr>ID = 3, Channel = ''c'', MessageText = ''m3''\<rparr>,
       \<lparr>ID = 5, Channel = ''c'', MessageText = ''m5''\<rparr>]"
    by (simp add: Subscribe_def attach_def subscribe_events_def messages_1_def messages_2_def
        poll_messages_def finish_def eval_nat_numeral)
  have batch: "map ID (poll_messages ''c'' 1 messages_2) = [3, 5, 6]"
    by (simp add: poll_messages_def messages_2_def)
  from Subscribe_in_id_order [of "''c''" subscribe_events 1 messages_2]
  have "sorted (map ID (ch (Subscribe ''c'' subscribe_events)))"
    and "LastMessageId (Subscribe ''c'' subscribe_events) =
      (if ch (Subscribe ''c'' subscribe_events) = [] then - 1
       else ID (last (ch (Subscribe ''c'' subscribe_events))))"
    by blast+
  with sent batch show ?thesis by simp
qed

end
